theory Spec2Isabelle
  imports Complex_Main
begin

section \<open>The validator's persistence layer (casinotao/validator/database.py)\<close>

text \<open>
  The module keeps four SQLite tables (snapshots, miner_data, bet_events,
  wallet_mappings). Every function opens a connection, runs one statement,
  commits and closes. The embedding passes the store explicitly: a function
  takes the state and returns its result together with the new state. What the
  environment decides is an argument of the function: whether the driver raises
  and where (\<open>fault\<close>), the value of \<open>CURRENT_TIMESTAMP\<close>, and the value of
  \<open>int(datetime.utcnow().timestamp())\<close>. The readers are modelled for calls
  in which the driver raises nothing.

  Python floats are kept abstract: the type variable \<open>'v\<close> stands for the
  values of the \<open>REAL\<close> columns and of the score and volume mappings, and only
  the operations the code applies to them (comparison with zero, addition) are
  required of it. Strings are ASCII text.
\<close>

subsection \<open>Python helpers: str, lower, sum, dictionaries\<close>

definition digit_char :: "nat \<Rightarrow> char" where
  "digit_char d = ''0123456789'' ! d"

function str_nat :: "nat \<Rightarrow> string" where
  "str_nat n = (if n < 10 then [digit_char n] else str_nat (n div 10) @ [digit_char (n mod 10)])"
  by pat_completeness auto
termination
  by (relation "measure (\<lambda>n. n)") auto

declare str_nat.simps [simp del]

text \<open>\<open>str(k)\<close> for a Python int: decimal digits, a minus sign for negatives.\<close>

definition str_int :: "int \<Rightarrow> string" where
  "str_int i = (if i < 0 then CHR ''-'' # str_nat (nat (- i)) else str_nat (nat i))"

definition upper_letters :: string where
  "upper_letters = ''ABCDEFGHIJKLMNOPQRSTUVWXYZ''"

definition lower_letters :: string where
  "lower_letters = ''abcdefghijklmnopqrstuvwxyz''"

definition lower_char :: "char \<Rightarrow> char" where
  "lower_char c = (case map_of (zip upper_letters lower_letters) c of Some l \<Rightarrow> l | None \<Rightarrow> c)"

text \<open>\<open>s.lower()\<close> on ASCII text.\<close>

definition lower :: "string \<Rightarrow> string" where
  "lower s = map lower_char s"

text \<open>\<open>sum(xs)\<close>: Python adds from the left, starting at 0.\<close>

definition py_sum :: "'v::{zero,plus} list \<Rightarrow> 'v" where
  "py_sum xs = foldl (\<lambda>acc x. acc + x) 0 xs"

text \<open>
  A Python dict is an association list in insertion order whose keys are
  distinct. \<open>d[k] = v\<close> overwrites in place when the key is there and appends
  otherwise; \<open>d.get(k)\<close> is \<open>map_of\<close>.
\<close>

fun dict_set :: "('k \<times> 'v) list \<Rightarrow> 'k \<Rightarrow> 'v \<Rightarrow> ('k \<times> 'v) list" where
  "dict_set [] k v = [(k, v)]"
| "dict_set ((k', v') # d) k v = (if k' = k then (k, v) # d else (k', v') # dict_set d k v)"

definition dict_values :: "('k \<times> 'v) list \<Rightarrow> 'v list" where
  "dict_values d = map snd d"

text \<open>Keys of the dictionaries the module handles: ints on the way in, strings after JSON.\<close>

datatype pykey = KInt int | KStr string

text \<open>\<open>{str(k): v for k, v in d.items()}\<close>\<close>

definition str_keys :: "(int \<times> 'v) list \<Rightarrow> (pykey \<times> 'v) list" where
  "str_keys d = foldl (\<lambda>acc (k, v). dict_set acc (KStr (str_int k)) v) [] d"

subsection \<open>JSON\<close>

text \<open>
  A JSON text is represented by its abstract syntax: an object is its list of
  members in the order they are written, an array its list of elements.
  \<open>json.dumps\<close> writes the members of a dict in dict order and turns an int
  key into its decimal string; \<open>json.loads\<close> builds a dict by inserting the
  members one after the other, so all keys come back as strings. Numbers are
  read back as they were written.
\<close>

datatype 'v json = JObject "(string \<times> 'v) list" | JArray "'v list"

datatype 'v pyjson = PyDict "(pykey \<times> 'v) list" | PyList "'v list"

fun key_text :: "pykey \<Rightarrow> string" where
  "key_text (KStr s) = s"
| "key_text (KInt i) = str_int i"

fun json_dumps :: "'v pyjson \<Rightarrow> 'v json" where
  "json_dumps (PyDict d) = JObject (map (\<lambda>(k, v). (key_text k, v)) d)"
| "json_dumps (PyList xs) = JArray xs"

fun json_loads :: "'v json \<Rightarrow> 'v pyjson" where
  "json_loads (JObject ms) = PyDict (foldl (\<lambda>acc (k, v). dict_set acc (KStr k) v) [] ms)"
| "json_loads (JArray xs) = PyList xs"

text \<open>\<open>d[k]\<close> on a value that came out of \<open>json.loads\<close>; \<open>None\<close>: the lookup raises.\<close>

fun py_getitem :: "'v pyjson \<Rightarrow> pykey \<Rightarrow> 'v option" where
  "py_getitem (PyDict d) k = map_of d k"
| "py_getitem (PyList xs) k = None"

subsection \<open>Faults, exceptions and the log\<close>

text \<open>
  \<open>fault\<close> says whether the sqlite3 driver raises during a call, at which step
  (opening the connection, executing the statement, committing) and with which
  message. A call that raises leaves no committed change.
\<close>

datatype stage = Connect | Execute | Commit

datatype fault = NoFault | Fault stage string

datatype exn = StorageError stage string

datatype log_entry = Info string | Debug string | Error string

text \<open>What a function without a \<open>return\<close> statement gives its caller.\<close>

datatype py_return = PyNone | PyInt int

subsection \<open>Tables\<close>

record 'v snapshot_row =
  snap_id :: int
  snap_block_number :: int
  snap_timestamp :: string
  snap_total_miners :: int
  snap_total_volume :: 'v
  snap_scores_json :: "'v json"
  snap_volumes_json :: "'v json"

record 'v miner_row =
  md_uid :: int
  md_hotkey :: string
  md_coldkey :: string
  md_evm_address :: "string option"
  md_daily_volumes_json :: "'v json option"
  md_weighted_volume :: 'v
  md_score :: 'v
  md_last_updated :: string

record 'v bet_row =
  be_id :: int
  be_evm_address :: string
  be_game_id :: int
  be_amount :: 'v
  be_side :: int
  be_block_number :: int
  be_timestamp :: int

record wallet_row =
  wm_id :: int
  wm_coldkey :: string
  wm_evm_address :: string
  wm_signature :: string
  wm_message :: string
  wm_timestamp :: int
  wm_verified_at :: string

text \<open>
  The store after \<open>init_db\<close>: the rows of each table in insertion order, the
  \<open>sqlite_sequence\<close> counter of each \<open>AUTOINCREMENT\<close> table, and the lines
  written through \<open>bt.logging\<close>.
\<close>

record 'v state =
  snapshots :: "'v snapshot_row list"
  snapshots_seq :: int
  miner_data :: "'v miner_row list"
  bet_events :: "'v bet_row list"
  bet_events_seq :: int
  wallet_mappings :: "wallet_row list"
  wallet_mappings_seq :: int
  logged :: "log_entry list"

definition empty_state :: "'v state" where
  "empty_state = \<lparr>snapshots = [], snapshots_seq = 0, miner_data = [], bet_events = [],
     bet_events_seq = 0, wallet_mappings = [], wallet_mappings_seq = 0, logged = []\<rparr>"

text \<open>
  \<open>INTEGER PRIMARY KEY AUTOINCREMENT\<close>: one more than the largest rowid the
  table has now or ever had.
\<close>

definition next_rowid :: "int \<Rightarrow> int list \<Rightarrow> int" where
  "next_rowid seq ids = fold max ids seq + 1"

text \<open>\<open>LIMIT n\<close>: a negative bound means no bound.\<close>

definition sql_limit :: "int \<Rightarrow> 'a list \<Rightarrow> 'a list" where
  "sql_limit n rows = (if n < 0 then rows else take (nat n) rows)"

text \<open>\<open>cursor.fetchone()\<close>\<close>

definition fetchone :: "'a list \<Rightarrow> 'a option" where
  "fetchone rows = (case rows of [] \<Rightarrow> None | r # _ \<Rightarrow> Some r)"

subsection \<open>Snapshots\<close>

record 'v snapshot_summary =
  block_number :: int
  timestamp :: string
  total_miners :: int
  total_volume :: 'v

record 'v snapshot = "'v snapshot_summary" +
  scores :: "'v pyjson"
  volumes :: "'v pyjson"

definition init_db :: "fault \<Rightarrow> 'v state \<Rightarrow> (exn + unit) \<times> 'v state" where
  "init_db f st =
     (case f of
        Fault g m \<Rightarrow> (Inl (StorageError g m), st)
      | NoFault \<Rightarrow> (Inr (), st\<lparr>logged := logged st @ [Info ''Database initialized successfully'']\<rparr>))"

text \<open>
  \<open>save_snapshot\<close>: the optional argument \<open>miner_details\<close> is not used by the
  body and is left out.
\<close>

definition save_snapshot ::
  "fault \<Rightarrow> string \<Rightarrow> int \<Rightarrow> (int \<times> 'v) list \<Rightarrow> (int \<times> 'v) list \<Rightarrow> 'v::{zero,plus,ord} state
     \<Rightarrow> (exn + unit) \<times> 'v state" where
  "save_snapshot f now blk scs vols st =
     (case f of
        Fault g m \<Rightarrow> (Inl (StorageError g m), st)
      | NoFault \<Rightarrow>
          (let scores_json = json_dumps (PyDict (str_keys scs));
               volumes_json = json_dumps (PyDict (str_keys vols));
               rid = next_rowid (snapshots_seq st) (map snap_id (snapshots st));
               row = \<lparr>snap_id = rid, snap_block_number = blk, snap_timestamp = now,
                  snap_total_miners = int (length (filter (\<lambda>s. 0 < s) (dict_values scs))),
                  snap_total_volume = py_sum (dict_values vols),
                  snap_scores_json = scores_json, snap_volumes_json = volumes_json\<rparr>
           in (Inr (), st\<lparr>snapshots := snapshots st @ [row], snapshots_seq := rid,
                  logged := logged st @ [Info (''Snapshot saved at block '' @ str_int blk)]\<rparr>)))"

text \<open>\<open>ORDER BY id DESC\<close>\<close>

definition order_by_id_desc :: "'v snapshot_row list \<Rightarrow> 'v snapshot_row list" where
  "order_by_id_desc rows = sort_key (\<lambda>r. - snap_id r) rows"

definition get_latest_snapshot :: "'v state \<Rightarrow> 'v snapshot option" where
  "get_latest_snapshot st =
     (case fetchone (sql_limit 1 (order_by_id_desc (snapshots st))) of
        Some row \<Rightarrow> Some \<lparr>block_number = snap_block_number row, timestamp = snap_timestamp row,
            total_miners = snap_total_miners row, total_volume = snap_total_volume row,
            scores = json_loads (snap_scores_json row), volumes = json_loads (snap_volumes_json row)\<rparr>
      | None \<Rightarrow> None)"

definition get_snapshots :: "int \<Rightarrow> 'v state \<Rightarrow> 'v snapshot_summary list" where
  "get_snapshots limit st =
     map (\<lambda>r. \<lparr>block_number = snap_block_number r, timestamp = snap_timestamp r,
            total_miners = snap_total_miners r, total_volume = snap_total_volume r\<rparr>)
       (sql_limit limit (order_by_id_desc (snapshots st)))"

subsection \<open>Miner data\<close>


text \<open>
  \<open>INSERT OR REPLACE\<close> on the primary key \<open>uid\<close>: the row that holds the uid
  is deleted, then the new row is inserted.
\<close>

definition update_miner_data ::
  "fault \<Rightarrow> string \<Rightarrow> int \<Rightarrow> string \<Rightarrow> string \<Rightarrow> string option \<Rightarrow> 'v list \<Rightarrow> 'v \<Rightarrow> 'v \<Rightarrow> 'v state
     \<Rightarrow> (exn + unit) \<times> 'v state" where
  "update_miner_data f now uid hotkey coldkey evm_address daily_volumes weighted_volume score st =
     (case f of
        Fault g m \<Rightarrow> (Inl (StorageError g m), st)
      | NoFault \<Rightarrow>
          (let row = \<lparr>md_uid = uid, md_hotkey = hotkey, md_coldkey = coldkey,
                  md_evm_address = evm_address,
                  md_daily_volumes_json = Some (json_dumps (PyList daily_volumes)),
                  md_weighted_volume = weighted_volume, md_score = score, md_last_updated = now\<rparr>
           in (Inr (), st\<lparr>miner_data := filter (\<lambda>r. md_uid r \<noteq> uid) (miner_data st) @ [row]\<rparr>)))"


subsection \<open>Bet events\<close>

text \<open>The columns of \<open>UNIQUE(evm_address, game_id, block_number, side)\<close>.\<close>

definition bet_key :: "'v bet_row \<Rightarrow> string \<times> int \<times> int \<times> int" where
  "bet_key r = (be_evm_address r, be_game_id r, be_block_number r, be_side r)"

text \<open>
  \<open>INSERT OR IGNORE\<close>: a row whose key is in the table already is skipped.
  SQLite draws the rowid before it checks the key, so a skipped insert still
  moves the \<open>sqlite_sequence\<close> counter of the table. The \<open>try\<close> covers the
  statement and the commit, not the opening of the connection; what it catches
  is logged at debug level.
\<close>

definition cache_bet_event ::
  "fault \<Rightarrow> string \<Rightarrow> int \<Rightarrow> 'v \<Rightarrow> int \<Rightarrow> int \<Rightarrow> int \<Rightarrow> 'v state \<Rightarrow> (exn + unit) \<times> 'v state" where
  "cache_bet_event f evm_address game_id amount side blk ts st =
     (case f of
        Fault Connect m \<Rightarrow> (Inl (StorageError Connect m), st)
      | Fault _ m \<Rightarrow> (Inr (), st\<lparr>logged := logged st @ [Debug (''Error caching bet event: '' @ m)]\<rparr>)
      | NoFault \<Rightarrow>
          (let rid = next_rowid (bet_events_seq st) (map be_id (bet_events st));
               row = \<lparr>be_id = rid, be_evm_address = evm_address, be_game_id = game_id,
                  be_amount = amount, be_side = side, be_block_number = blk, be_timestamp = ts\<rparr>
           in if (evm_address, game_id, blk, side) \<in> set (map bet_key (bet_events st))
              then (Inr (), st\<lparr>bet_events_seq := rid\<rparr>)
              else (Inr (), st\<lparr>bet_events := bet_events st @ [row], bet_events_seq := rid\<rparr>)))"

text \<open>
  The clock of the host: Unix time in whole seconds, and the offset of the
  local zone from UTC in seconds east. \<open>datetime.utcnow()\<close> is a naive datetime
  that holds the UTC wall time, and \<open>timestamp()\<close> reads a naive datetime as
  local time, so \<open>int(datetime.utcnow().timestamp())\<close> is Unix time less the
  offset.
\<close>

record clock =
  unix_time :: int
  utc_offset :: int

definition utcnow_timestamp :: "clock \<Rightarrow> int" where
  "utcnow_timestamp c = unix_time c - utc_offset c"

text \<open>
  \<open>now\<close> is the value of \<open>int(datetime.utcnow().timestamp())\<close> read by the call,
  \<open>utcnow_timestamp\<close> of the host's clock at that moment. The function has no
  \<open>return\<close>: the number of deleted rows goes to the log, and only when it is
  positive.
\<close>

definition cleanup_old_events :: "fault \<Rightarrow> int \<Rightarrow> int \<Rightarrow> 'v state \<Rightarrow> (exn + py_return) \<times> 'v state" where
  "cleanup_old_events f now days st =
     (case f of
        Fault g m \<Rightarrow> (Inl (StorageError g m), st)
      | NoFault \<Rightarrow>
          (let cutoff = now - days * 86400;
               deleted = int (length (filter (\<lambda>r. be_timestamp r < cutoff) (bet_events st)));
               st' = st\<lparr>bet_events := filter (\<lambda>r. \<not> be_timestamp r < cutoff) (bet_events st)\<rparr>
           in (Inr PyNone,
               if deleted > 0
               then st'\<lparr>logged := logged st' @ [Info (''Cleaned up '' @ str_int deleted @ '' old bet events'')]\<rparr>
               else st')))"

subsection \<open>Wallet mappings\<close>

record wallet_mapping =
  w_coldkey :: string
  w_evm_address :: string
  w_signature :: string
  w_message :: string
  w_timestamp :: int
  w_verified_at :: string

text \<open>
  \<open>INSERT OR REPLACE\<close> on \<open>coldkey UNIQUE\<close>; the new row takes a fresh id.
  As in \<open>cache_bet_event\<close>, the connection is opened before the \<open>try\<close>.
\<close>

definition save_wallet_mapping ::
  "fault \<Rightarrow> string \<Rightarrow> string \<Rightarrow> string \<Rightarrow> string \<Rightarrow> string \<Rightarrow> int \<Rightarrow> 'v state \<Rightarrow> (exn + bool) \<times> 'v state" where
  "save_wallet_mapping f now coldkey evm_address signature message ts st =
     (case f of
        Fault Connect m \<Rightarrow> (Inl (StorageError Connect m), st)
      | Fault _ m \<Rightarrow>
          (Inr False, st\<lparr>logged := logged st @ [Error (''Failed to save wallet mapping: '' @ m)]\<rparr>)
      | NoFault \<Rightarrow>
          (let rid = next_rowid (wallet_mappings_seq st) (map wm_id (wallet_mappings st));
               row = \<lparr>wm_id = rid, wm_coldkey = coldkey, wm_evm_address = lower evm_address,
                  wm_signature = signature, wm_message = message, wm_timestamp = ts,
                  wm_verified_at = now\<rparr>
           in (Inr True,
               st\<lparr>wallet_mappings := filter (\<lambda>r. wm_coldkey r \<noteq> coldkey) (wallet_mappings st) @ [row],
                  wallet_mappings_seq := rid,
                  logged := logged st @ [Info (''Wallet mapping saved: '' @ take 10 coldkey @ ''... -> ''
                                                 @ take 10 evm_address @ ''...'')]\<rparr>)))"

definition get_wallet_mapping :: "string \<Rightarrow> 'v state \<Rightarrow> wallet_mapping option" where
  "get_wallet_mapping coldkey st =
     (case fetchone (filter (\<lambda>r. wm_coldkey r = coldkey) (wallet_mappings st)) of
        Some row \<Rightarrow> Some \<lparr>w_coldkey = wm_coldkey row, w_evm_address = wm_evm_address row,
            w_signature = wm_signature row, w_message = wm_message row,
            w_timestamp = wm_timestamp row, w_verified_at = wm_verified_at row\<rparr>
      | None \<Rightarrow> None)"

definition get_evm_address_for_coldkey :: "string \<Rightarrow> 'v state \<Rightarrow> string option" where
  "get_evm_address_for_coldkey coldkey st =
     (case get_wallet_mapping coldkey st of Some mapping \<Rightarrow> Some (w_evm_address mapping) | None \<Rightarrow> None)"

definition delete_wallet_mapping :: "fault \<Rightarrow> string \<Rightarrow> 'v state \<Rightarrow> (exn + bool) \<times> 'v state" where
  "delete_wallet_mapping f coldkey st =
     (case f of
        Fault g m \<Rightarrow> (Inl (StorageError g m), st)
      | NoFault \<Rightarrow>
          (Inr (length (filter (\<lambda>r. wm_coldkey r = coldkey) (wallet_mappings st)) > 0),
           st\<lparr>wallet_mappings := filter (\<lambda>r. wm_coldkey r \<noteq> coldkey) (wallet_mappings st)\<rparr>))"

subsection \<open>Sequences of calls\<close>

text \<open>
  The writers of the module as commands, each with the environment of its call,
  and the store after a sequence of them. A call that raises leaves the store
  as it found it, and the sequence goes on.
\<close>

datatype 'v call =
    InitDb fault
  | SaveSnapshot fault string int "(int \<times> 'v) list" "(int \<times> 'v) list"
  | UpdateMinerData fault string int string string "string option" "'v list" 'v 'v
  | CacheBetEvent fault string int 'v int int int
  | CleanupOldEvents fault int int
  | SaveWalletMapping fault string string string string string int
  | DeleteWalletMapping fault string

fun exec :: "'v::{zero,plus,ord} call \<Rightarrow> 'v state \<Rightarrow> 'v state" where
  "exec (InitDb f) st = snd (init_db f st)"
| "exec (SaveSnapshot f now blk scs vols) st = snd (save_snapshot f now blk scs vols st)"
| "exec (UpdateMinerData f now uid hk ck evm dv wv sc) st = snd (update_miner_data f now uid hk ck evm dv wv sc st)"
| "exec (CacheBetEvent f evm gid amt side blk ts) st = snd (cache_bet_event f evm gid amt side blk ts st)"
| "exec (CleanupOldEvents f now days) st = snd (cleanup_old_events f now days st)"
| "exec (SaveWalletMapping f now ck evm sg msg ts) st = snd (save_wallet_mapping f now ck evm sg msg ts st)"
| "exec (DeleteWalletMapping f ck) st = snd (delete_wallet_mapping f ck st)"

definition run :: "'v::{zero,plus,ord} call list \<Rightarrow> 'v state \<Rightarrow> 'v state" where
  "run cs st = foldl (\<lambda>s c. exec c s) st cs"

section \<open>Properties\<close>

subsection \<open>Helper lemmas\<close>

lemma dict_set_fresh: "k \<notin> fst ` set d \<Longrightarrow> dict_set d k v = d @ [(k, v)]"
  by (induction d) auto

lemma digit_char_inj: "a < 10 \<Longrightarrow> b < 10 \<Longrightarrow> digit_char a = digit_char b \<Longrightarrow> a = b"
proof -
  assume a: "a < 10" and b: "b < 10" and e: "digit_char a = digit_char b"
  have A: "a \<in> {0,1,2,3,4,5,6,7,8,9}" using a by auto
  have B: "b \<in> {0,1,2,3,4,5,6,7,8,9}" using b by auto
  show ?thesis using A B e by (auto simp: digit_char_def)
qed

lemma digit_char_not_minus: "d < 10 \<Longrightarrow> digit_char d \<noteq> CHR ''-''"
proof -
  assume a: "d < 10"
  have A: "d \<in> {0,1,2,3,4,5,6,7,8,9}" using a by auto
  show ?thesis using A by (auto simp: digit_char_def)
qed

lemma str_nat_nonempty: "str_nat n \<noteq> []"
  by (subst str_nat.simps) simp

lemma str_nat_length_ge2: "10 \<le> n \<Longrightarrow> 2 \<le> length (str_nat n)"
  using str_nat_nonempty [of "n div 10"]
  by (subst str_nat.simps) (cases "str_nat (n div 10)"; simp)

lemma str_nat_no_minus: "CHR ''-'' \<notin> set (str_nat n)"
proof (induction n rule: str_nat.induct)
  case (1 n)
  show ?case
  proof (cases "n < 10")
    case True
    then show ?thesis using digit_char_not_minus [of n] by (subst str_nat.simps) auto
  next
    case False
    have "n mod 10 < 10" by simp
    then have "digit_char (n mod 10) \<noteq> CHR ''-''" by (rule digit_char_not_minus)
    with False 1 show ?thesis by (subst str_nat.simps) auto
  qed
qed

lemma str_nat_inj: "str_nat m = str_nat n \<Longrightarrow> m = n"
proof (induction m arbitrary: n rule: str_nat.induct)
  case (1 m)
  show ?case
  proof (cases "m < 10")
    case True
    show ?thesis
    proof (cases "n < 10")
      case n: True
      from "1.prems" True n have "digit_char m = digit_char n"
        by (simp add: str_nat.simps [of m] str_nat.simps [of n])
      with True n show ?thesis by (rule digit_char_inj)
    next
      case False
      then have "2 \<le> length (str_nat n)" by (simp add: str_nat_length_ge2)
      moreover have "length (str_nat m) = 1" using True by (subst str_nat.simps) simp
      ultimately show ?thesis using "1.prems" by simp
    qed
  next
    case False
    show ?thesis
    proof (cases "n < 10")
      case True
      from False have "2 \<le> length (str_nat m)" by (simp add: str_nat_length_ge2)
      moreover have "length (str_nat n) = 1" using True by (subst str_nat.simps) simp
      ultimately show ?thesis using "1.prems" by simp
    next
      case n: False
      from "1.prems" False n
      have e: "str_nat (m div 10) @ [digit_char (m mod 10)] = str_nat (n div 10) @ [digit_char (n mod 10)]"
        by (simp add: str_nat.simps [of m] str_nat.simps [of n])
      then have "str_nat (m div 10) = str_nat (n div 10)" and d: "digit_char (m mod 10) = digit_char (n mod 10)"
        by simp_all
      then have q: "m div 10 = n div 10" using "1.IH" False by blast
      have "m mod 10 = n mod 10" using d by (intro digit_char_inj) simp_all
      with q show ?thesis by (metis div_mult_mod_eq)
    qed
  qed
qed

lemma str_int_inj: "str_int i = str_int j \<Longrightarrow> i = j"
proof -
  assume e: "str_int i = str_int j"
  have hd_nat: "\<And>n. hd (str_nat n) \<noteq> CHR ''-''"
    using str_nat_no_minus str_nat_nonempty by (metis list.set_sel(1))
  show ?thesis
  proof (cases "i < 0"; cases "j < 0")
    assume "i < 0" "j < 0"
    with e have "str_nat (nat (- i)) = str_nat (nat (- j))" by (simp add: str_int_def)
    then have "nat (- i) = nat (- j)" by (rule str_nat_inj)
    with \<open>i < 0\<close> \<open>j < 0\<close> show ?thesis by simp
  next
    assume "i < 0" "\<not> j < 0"
    with e have "CHR ''-'' # str_nat (nat (- i)) = str_nat (nat j)" by (simp add: str_int_def)
    then have "hd (str_nat (nat j)) = CHR ''-''" by (metis list.sel(1))
    with hd_nat show ?thesis by blast
  next
    assume "\<not> i < 0" "j < 0"
    with e have "CHR ''-'' # str_nat (nat (- j)) = str_nat (nat i)" by (simp add: str_int_def)
    then have "hd (str_nat (nat i)) = CHR ''-''" by (metis list.sel(1))
    with hd_nat show ?thesis by blast
  next
    assume "\<not> i < 0" "\<not> j < 0"
    with e have "str_nat (nat i) = str_nat (nat j)" by (simp add: str_int_def)
    then have "nat i = nat j" by (rule str_nat_inj)
    with \<open>\<not> i < 0\<close> \<open>\<not> j < 0\<close> show ?thesis by simp
  qed
qed

lemma foldl_dict_set_fresh:
  "distinct (map fst acc @ map (\<lambda>x. g (fst x)) xs) \<Longrightarrow>
   foldl (\<lambda>a (k, v). dict_set a (g k) v) acc xs = acc @ map (\<lambda>(k, v). (g k, v)) xs"
proof (induction xs arbitrary: acc)
  case Nil
  then show ?case by simp
next
  case (Cons x xs)
  obtain k v where x: "x = (k, v)" by (cases x)
  from Cons.prems x have fresh: "g k \<notin> fst ` set acc" by auto
  from Cons.prems x have "distinct (map fst (acc @ [(g k, v)]) @ map (\<lambda>x. g (fst x)) xs)" by auto
  then have "foldl (\<lambda>a (k, v). dict_set a (g k) v) (acc @ [(g k, v)]) xs
      = (acc @ [(g k, v)]) @ map (\<lambda>(k, v). (g k, v)) xs"
    by (rule Cons.IH)
  with fresh x show ?case by (simp add: dict_set_fresh)
qed

lemma str_keys_distinct:
  assumes "distinct (map fst d)"
  shows "str_keys d = map (\<lambda>(k, v). (KStr (str_int k), v)) d"
proof -
  have "inj (\<lambda>k. KStr (str_int k))" by (auto simp: inj_def dest: str_int_inj)
  then have "distinct (map (\<lambda>x. KStr (str_int (fst x))) d)"
    using assms by (simp add: distinct_map inj_on_def comp_def)
  then show ?thesis
    unfolding str_keys_def
    using foldl_dict_set_fresh [of "[]" "\<lambda>k. KStr (str_int k)" d] by simp
qed

lemma json_roundtrip_str_keys:
  assumes "distinct (map fst d)"
  shows "json_loads (json_dumps (PyDict (str_keys d))) = PyDict (map (\<lambda>(k, v). (KStr (str_int k), v)) d)"
proof -
  let ?ms = "map (\<lambda>(k, v). (str_int k, v)) d"
  have inj: "inj str_int" by (auto simp: inj_def dest: str_int_inj)
  have "distinct (map (\<lambda>x. KStr (fst x)) ?ms)"
    using assms inj by (simp add: distinct_map inj_on_def comp_def case_prod_beta)
  then have "foldl (\<lambda>a (k, v). dict_set a (KStr k) v) [] ?ms = [] @ map (\<lambda>(k, v). (KStr k, v)) ?ms"
    by (intro foldl_dict_set_fresh) simp
  also have "\<dots> = map (\<lambda>(k, v). (KStr (str_int k), v)) d"
    by (induction d) auto
  finally have loads: "json_loads (JObject ?ms) = PyDict (map (\<lambda>(k, v). (KStr (str_int k), v)) d)"
    by simp
  have "map (\<lambda>(k, v). (key_text k, v)) (map (\<lambda>(k, v). (KStr (str_int k), v)) d) = ?ms"
    by (induction d) auto
  then have "json_dumps (PyDict (str_keys d)) = JObject ?ms"
    by (simp only: str_keys_distinct [OF assms] json_dumps.simps)
  with loads show ?thesis by (simp only:)
qed

lemma fold_max_ge: "seq \<le> fold max ids (seq::int)"
  by (induction ids arbitrary: seq) (auto intro: order_trans [OF max.cobounded2])

lemma fold_max_mem: "i \<in> set ids \<Longrightarrow> i \<le> fold max ids (seq::int)"
proof (induction ids arbitrary: seq)
  case Nil
  then show ?case by simp
next
  case (Cons a ids)
  then show ?case
    using fold_max_ge [of "max a seq" ids] by auto
qed

lemma next_rowid_fresh: "i \<in> set ids \<Longrightarrow> i < next_rowid seq ids"
  using fold_max_mem [of i ids seq] by (simp add: next_rowid_def)

lemma next_rowid_above_seq: "seq < next_rowid seq ids"
  using fold_max_ge [of seq ids] by (simp add: next_rowid_def)

lemma sort_key_snoc_least:
  fixes f :: "'a \<Rightarrow> int"
  shows "\<forall>y \<in> set xs. f x < f y \<Longrightarrow> sort_key f (xs @ [x]) = x # sort_key f xs"
  by (induction xs) auto

lemma order_by_id_desc_snoc:
  "\<forall>r \<in> set rows. snap_id r < snap_id new \<Longrightarrow>
   order_by_id_desc (rows @ [new]) = new # order_by_id_desc rows"
  unfolding order_by_id_desc_def by (rule sort_key_snoc_least) simp

subsection \<open>Snapshots: the latest snapshot is the one just written\<close>

lemma py_sum_sum_list: "py_sum (xs :: 'a::monoid_add list) = sum_list xs"
proof -
  have "foldl (\<lambda>acc x. acc + x) a xs = a + sum_list xs" for a :: 'a
    by (induction xs arbitrary: a) (simp_all add: add.assoc)
  from this [of 0] show ?thesis by (simp add: py_sum_def)
qed

lemma save_snapshot_ok:
  assumes "save_snapshot f now blk scs vols st = (Inr u, st')"
  shows "\<exists>rid. (\<forall>r \<in> set (snapshots st). snap_id r < rid) \<and>
     snapshots st' = snapshots st @ [\<lparr>snap_id = rid, snap_block_number = blk, snap_timestamp = now,
        snap_total_miners = int (length (filter (\<lambda>s. 0 < s) (dict_values scs))),
        snap_total_volume = py_sum (dict_values vols),
        snap_scores_json = json_dumps (PyDict (str_keys scs)),
        snap_volumes_json = json_dumps (PyDict (str_keys vols))\<rparr>]"
proof (cases f)
  case NoFault
  let ?rid = "next_rowid (snapshots_seq st) (map snap_id (snapshots st))"
  have "\<forall>r \<in> set (snapshots st). snap_id r < ?rid"
    by (auto intro: next_rowid_fresh)
  moreover from assms NoFault have "snapshots st' = snapshots st @ [\<lparr>snap_id = ?rid, snap_block_number = blk, snap_timestamp = now,
        snap_total_miners = int (length (filter (\<lambda>s. 0 < s) (dict_values scs))),
        snap_total_volume = py_sum (dict_values vols),
        snap_scores_json = json_dumps (PyDict (str_keys scs)),
        snap_volumes_json = json_dumps (PyDict (str_keys vols))\<rparr>]"
    by (auto simp: save_snapshot_def Let_def)
  ultimately show ?thesis by blast
next
  case (Fault g m)
  with assms show ?thesis by (simp add: save_snapshot_def)
qed

lemma latest_of_snoc:
  assumes "\<forall>r \<in> set rows. snap_id r < snap_id new" and "snapshots st = rows @ [new]"
  shows "fetchone (sql_limit 1 (order_by_id_desc (snapshots st))) = Some new"
    and "sql_limit 1 (order_by_id_desc (snapshots st)) = [new]"
  using assms by (simp_all add: order_by_id_desc_snoc sql_limit_def fetchone_def)

lemma get_latest_after_save:
  assumes "save_snapshot f now blk scs vols st = (Inr u, st')"
  shows "get_latest_snapshot st' = Some \<lparr>block_number = blk, timestamp = now,
      total_miners = int (length (filter (\<lambda>s. 0 < s) (map snd scs))),
      total_volume = py_sum (map snd vols),
      scores = json_loads (json_dumps (PyDict (str_keys scs))),
      volumes = json_loads (json_dumps (PyDict (str_keys vols)))\<rparr>"
proof -
  from save_snapshot_ok [OF assms] obtain rid where
    lt: "\<forall>r \<in> set (snapshots st). snap_id r < rid" and
    rows: "snapshots st' = snapshots st @ [\<lparr>snap_id = rid, snap_block_number = blk, snap_timestamp = now,
        snap_total_miners = int (length (filter (\<lambda>s. 0 < s) (dict_values scs))),
        snap_total_volume = py_sum (dict_values vols),
        snap_scores_json = json_dumps (PyDict (str_keys scs)),
        snap_volumes_json = json_dumps (PyDict (str_keys vols))\<rparr>]" (is "_ = _ @ [?new]")
    by blast
  have "fetchone (sql_limit 1 (order_by_id_desc (snapshots st'))) = Some ?new"
    by (rule latest_of_snoc(1) [OF _ rows]) (simp add: lt)
  then show ?thesis
    by (simp add: get_latest_snapshot_def dict_values_def del: json_dumps.simps json_loads.simps)
qed

lemma get_snapshots_1_after_save:
  assumes "save_snapshot f now blk scs vols st = (Inr u, st')"
  shows "get_snapshots 1 st' = [\<lparr>block_number = blk, timestamp = now,
      total_miners = int (length (filter (\<lambda>s. 0 < s) (map snd scs))),
      total_volume = py_sum (map snd vols)\<rparr>]"
proof -
  from save_snapshot_ok [OF assms] obtain rid where
    lt: "\<forall>r \<in> set (snapshots st). snap_id r < rid" and
    rows: "snapshots st' = snapshots st @ [\<lparr>snap_id = rid, snap_block_number = blk, snap_timestamp = now,
        snap_total_miners = int (length (filter (\<lambda>s. 0 < s) (dict_values scs))),
        snap_total_volume = py_sum (dict_values vols),
        snap_scores_json = json_dumps (PyDict (str_keys scs)),
        snap_volumes_json = json_dumps (PyDict (str_keys vols))\<rparr>]" (is "_ = _ @ [?new]")
    by blast
  have "sql_limit 1 (order_by_id_desc (snapshots st')) = [?new]"
    by (rule latest_of_snoc(2) [OF _ rows]) (simp add: lt)
  then show ?thesis
    by (simp add: get_snapshots_def dict_values_def)
qed

lemma map_of_str_keys:
  "map_of (map (\<lambda>(k, v). (KStr (str_int k), v)) d) (KStr (str_int K)) = map_of d K"
  by (induction d) (auto dest: str_int_inj)

lemma map_of_str_keys_int: "map_of (map (\<lambda>(k, v). (KStr (str_int k), v)) d) (KInt K) = None"
  by (induction d) auto

text \<open>
  C1. A call of \<open>save_snapshot\<close> during which the driver raises nothing returns,
  from any store, and \<open>get_latest_snapshot\<close> called right after it returns the
  record just written: the block number and the store's timestamp of the
  write, \<open>total_miners\<close> the number of scores strictly above zero,
  \<open>total_volume\<close> the sum of the volumes as \<open>sum\<close> computes it, and the two
  mappings with their keys in string form. (Over exact arithmetic \<open>py_sum\<close> is
  \<open>sum_list\<close>, lemma \<open>py_sum_sum_list\<close>.) A call during which the driver raises
  passes the exception on and writes nothing.
\<close>

theorem save_snapshot_then_get_latest:
  assumes "distinct (map fst scs)" and "distinct (map fst vols)"
  shows "fst (save_snapshot NoFault now blk scs vols st) = Inr () \<and>
     get_latest_snapshot (snd (save_snapshot NoFault now blk scs vols st)) =
       Some \<lparr>block_number = blk, timestamp = now,
         total_miners = int (length (filter (\<lambda>s. 0 < s) (map snd scs))),
         total_volume = py_sum (map snd vols),
         scores = PyDict (map (\<lambda>(k, v). (KStr (str_int k), v)) scs),
         volumes = PyDict (map (\<lambda>(k, v). (KStr (str_int k), v)) vols)\<rparr> \<and>
     save_snapshot (Fault g m) now blk scs vols st = (Inl (StorageError g m), st)"
proof (intro conjI)
  show ret: "fst (save_snapshot NoFault now blk scs vols st) = Inr ()"
    by (simp add: save_snapshot_def Let_def)
  then have "save_snapshot NoFault now blk scs vols st =
      (Inr (), snd (save_snapshot NoFault now blk scs vols st))"
    by (metis prod.collapse)
  from get_latest_after_save [OF this]
  show "get_latest_snapshot (snd (save_snapshot NoFault now blk scs vols st)) =
       Some \<lparr>block_number = blk, timestamp = now,
         total_miners = int (length (filter (\<lambda>s. 0 < s) (map snd scs))),
         total_volume = py_sum (map snd vols),
         scores = PyDict (map (\<lambda>(k, v). (KStr (str_int k), v)) scs),
         volumes = PyDict (map (\<lambda>(k, v). (KStr (str_int k), v)) vols)\<rparr>"
    by (simp only: json_roundtrip_str_keys [OF assms(1)] json_roundtrip_str_keys [OF assms(2)])
  show "save_snapshot (Fault g m) now blk scs vols st = (Inl (StorageError g m), st)"
    by (simp add: save_snapshot_def)
qed

theorem save_snapshot_then_get_latest_witness:
  "get_latest_snapshot (snd (save_snapshot NoFault ''2025-01-01 00:00:00'' 100
      [(1, 0.5), (2, 0), (3, - 1), (4, 0.25)] [(1, 10.5), (4, 7.25 :: real)]
      (empty_state\<lparr>snapshots :=
          [\<lparr>snap_id = 3, snap_block_number = 200, snap_timestamp = ''2024-12-31 00:00:00'',
            snap_total_miners = 1, snap_total_volume = 2,
            snap_scores_json = JObject [(''9'', 1)], snap_volumes_json = JObject [(''9'', 2)]\<rparr>],
         snapshots_seq := 3\<rparr>)))
    = Some \<lparr>block_number = 100, timestamp = ''2025-01-01 00:00:00'', total_miners = 2, total_volume = 17.75,
        scores = PyDict [(KStr ''1'', 0.5), (KStr ''2'', 0), (KStr ''3'', - 1), (KStr ''4'', 0.25)],
        volumes = PyDict [(KStr ''1'', 10.5), (KStr ''4'', 7.25)]\<rparr>"
proof -
  let ?scs = "[(1 :: int, 0.5), (2, 0), (3, - 1), (4, 0.25 :: real)]"
    and ?vols = "[(1 :: int, 10.5), (4, 7.25 :: real)]"
  have d1: "distinct (map fst ?scs)" and d2: "distinct (map fst ?vols)" by simp_all
  show ?thesis
    using save_snapshot_then_get_latest [OF d1 d2, of "''2025-01-01 00:00:00''" 100
      "empty_state\<lparr>snapshots :=
          [\<lparr>snap_id = 3, snap_block_number = 200, snap_timestamp = ''2024-12-31 00:00:00'',
            snap_total_miners = 1, snap_total_volume = 2,
            snap_scores_json = JObject [(''9'', 1)], snap_volumes_json = JObject [(''9'', 2)]\<rparr>],
         snapshots_seq := 3\<rparr>" Connect "''io''"]
    by (simp add: py_sum_def str_int_def str_nat.simps digit_char_def)
qed

subsection \<open>Snapshots: keys of the mappings on the way back\<close>

text \<open>
  C6, as stated, fails: a mapping written under the int key 5 comes back under
  the string key \<open>''5''\<close>, and looking the int key up in what was read raises
  KeyError.
\<close>

theorem snapshot_key_roundtrip_counterexample:
  "map_of [(5 :: int, 1 :: int)] 5 = Some 1 \<and>
   get_latest_snapshot (snd (save_snapshot NoFault ''2025-01-01 00:00:00'' 100 [(5, 1)] [(5, 2 :: int)] empty_state)) \<noteq> None \<and>
   py_getitem (scores (the (get_latest_snapshot
      (snd (save_snapshot NoFault ''2025-01-01 00:00:00'' 100 [(5, 1)] [(5, 2 :: int)] empty_state))))) (KInt 5) = None"
proof -
  obtain st' where s: "save_snapshot NoFault ''2025-01-01 00:00:00'' 100 [(5, 1)] [(5, 2 :: int)] (empty_state :: int state) = (Inr (), st')"
    by (simp add: save_snapshot_def Let_def)
  show ?thesis
    using get_latest_after_save [OF s] s
    by (simp add: str_keys_def str_int_def str_nat.simps digit_char_def)
qed

text \<open>
  C6, amended. Whenever \<open>save_snapshot\<close> returns, the snapshot read back right
  after it holds, for every key \<open>K\<close> of the scores (of the volumes) written, the
  value written for \<open>K\<close> under the string \<open>str(K)\<close>.
\<close>

theorem snapshot_key_roundtrip_as_string:
  assumes "save_snapshot f now blk scs vols st = (Inr u, st')"
    and "distinct (map fst scs)" and "distinct (map fst vols)"
  shows "\<exists>s. get_latest_snapshot st' = Some s \<and>
     (\<forall>K v. map_of scs K = Some v \<longrightarrow> py_getitem (scores s) (KStr (str_int K)) = Some v) \<and>
     (\<forall>K v. map_of vols K = Some v \<longrightarrow> py_getitem (volumes s) (KStr (str_int K)) = Some v)"
  using get_latest_after_save [OF assms(1)]
  by (simp add: json_roundtrip_str_keys [OF assms(2)] json_roundtrip_str_keys [OF assms(3)]
      map_of_str_keys del: json_dumps.simps json_loads.simps)

theorem snapshot_key_roundtrip_as_string_witness:
  "\<exists>s. get_latest_snapshot (snd (save_snapshot NoFault ''2025-01-01 00:00:00'' 100 [(5, 1), (12, 3)] [(5, 2 :: int)] empty_state)) = Some s \<and>
     py_getitem (scores s) (KStr ''12'') = Some 3 \<and> py_getitem (volumes s) (KStr ''5'') = Some 2"
proof -
  let ?scs = "[(5 :: int, 1 :: int), (12, 3)]" and ?vols = "[(5 :: int, 2 :: int)]"
  obtain st' where s: "save_snapshot NoFault ''2025-01-01 00:00:00'' 100 ?scs ?vols (empty_state :: int state) = (Inr (), st')"
    by (simp add: save_snapshot_def Let_def)
  have d1: "distinct (map fst ?scs)" and d2: "distinct (map fst ?vols)" by simp_all
  have k1: "str_int 12 = ''12''" and k2: "str_int 5 = ''5''"
    by (simp_all add: str_int_def str_nat.simps digit_char_def)
  from snapshot_key_roundtrip_as_string [OF s d1 d2] obtain sn where
    g: "get_latest_snapshot st' = Some sn" and
    a: "\<forall>K v. map_of ?scs K = Some v \<longrightarrow> py_getitem (scores sn) (KStr (str_int K)) = Some v" and
    b: "\<forall>K v. map_of ?vols K = Some v \<longrightarrow> py_getitem (volumes sn) (KStr (str_int K)) = Some v"
    by blast
  from a have "py_getitem (scores sn) (KStr (str_int 12)) = Some 3" by simp
  moreover from b have "py_getitem (volumes sn) (KStr (str_int 5)) = Some 2" by simp
  ultimately show ?thesis using g s by (simp add: k1 k2)
qed

subsection \<open>Snapshots: recency is insertion order\<close>

text \<open>
  C7. After two snapshot writes, whatever their block numbers (equal, or the
  second below the first), \<open>get_snapshots\<close> with limit 1 returns the summary
  of the second write alone, and \<open>get_latest_snapshot\<close> returns the second
  write.
\<close>

theorem snapshot_recency_is_insertion_order:
  assumes "save_snapshot f1 now1 blk1 scs1 vols1 st = (Inr u1, st1)"
    and "save_snapshot f2 now2 blk2 scs2 vols2 st1 = (Inr u2, st2)"
  shows "get_snapshots 1 st2 = [\<lparr>block_number = blk2, timestamp = now2,
        total_miners = int (length (filter (\<lambda>s. 0 < s) (map snd scs2))),
        total_volume = py_sum (map snd vols2)\<rparr>] \<and>
     get_latest_snapshot st2 = Some \<lparr>block_number = blk2, timestamp = now2,
        total_miners = int (length (filter (\<lambda>s. 0 < s) (map snd scs2))),
        total_volume = py_sum (map snd vols2),
        scores = json_loads (json_dumps (PyDict (str_keys scs2))),
        volumes = json_loads (json_dumps (PyDict (str_keys vols2)))\<rparr>"
  using get_snapshots_1_after_save [OF assms(2)] get_latest_after_save [OF assms(2)]
  by (simp only: simp_thms)

theorem snapshot_recency_is_insertion_order_witness:
  "get_snapshots 1 (snd (save_snapshot NoFault ''2025-01-01 00:00:09'' 100 [(1, 0)] [(1, 4)]
       (snd (save_snapshot NoFault ''2025-01-01 00:00:00'' 100 [(1, 3)] [(1, 8 :: int)] empty_state))))
     = [\<lparr>block_number = 100, timestamp = ''2025-01-01 00:00:09'', total_miners = 0, total_volume = 4\<rparr>]"
proof -
  obtain st1 where s1: "save_snapshot NoFault ''2025-01-01 00:00:00'' 100 [(1, 3)] [(1, 8 :: int)] (empty_state :: int state) = (Inr (), st1)"
    by (simp add: save_snapshot_def Let_def)
  obtain st2 where s2: "save_snapshot NoFault ''2025-01-01 00:00:09'' 100 [(1, 0)] [(1, 4 :: int)] st1 = (Inr (), st2)"
    by (simp add: save_snapshot_def Let_def)
  show ?thesis
    using snapshot_recency_is_insertion_order [OF s1 s2] s1 s2
    by (simp add: py_sum_def)
qed

subsection \<open>Miner data: one row per uid, last writer wins\<close>

lemma update_miner_data_rows:
  "miner_data (snd (update_miner_data f now uid hk ck evm dv wv sc st)) = miner_data st \<or>
   miner_data (snd (update_miner_data f now uid hk ck evm dv wv sc st)) =
     filter (\<lambda>r. md_uid r \<noteq> uid) (miner_data st) @
       [\<lparr>md_uid = uid, md_hotkey = hk, md_coldkey = ck, md_evm_address = evm,
         md_daily_volumes_json = Some (json_dumps (PyList dv)),
         md_weighted_volume = wv, md_score = sc, md_last_updated = now\<rparr>]"
  by (cases f) (simp_all add: update_miner_data_def)








subsection \<open>Bet events: the uniqueness key\<close>

lemma cache_bet_event_present:
  assumes "(evm, gid, blk, side) \<in> set (map bet_key (bet_events st))"
  shows "bet_events (snd (cache_bet_event f evm gid amt side blk ts st)) = bet_events st"
    and "cache_bet_event NoFault evm gid amt side blk ts st =
      (Inr (), st\<lparr>bet_events_seq := next_rowid (bet_events_seq st) (map be_id (bet_events st))\<rparr>)"
proof -
  show "cache_bet_event NoFault evm gid amt side blk ts st =
      (Inr (), st\<lparr>bet_events_seq := next_rowid (bet_events_seq st) (map be_id (bet_events st))\<rparr>)"
    using assms by (simp add: cache_bet_event_def Let_def)
  show "bet_events (snd (cache_bet_event f evm gid amt side blk ts st)) = bet_events st"
  proof (cases f)
    case NoFault
    with assms show ?thesis by (simp add: cache_bet_event_def)
  next
    case (Fault g m)
    then show ?thesis by (cases g) (simp_all add: cache_bet_event_def)
  qed
qed

lemma cache_bet_event_absent:
  assumes "(evm, gid, blk, side) \<notin> set (map bet_key (bet_events st))"
  shows "bet_events (snd (cache_bet_event NoFault evm gid amt side blk ts st)) =
     bet_events st @ [\<lparr>be_id = next_rowid (bet_events_seq st) (map be_id (bet_events st)),
        be_evm_address = evm, be_game_id = gid, be_amount = amt, be_side = side,
        be_block_number = blk, be_timestamp = ts\<rparr>]"
  using assms by (simp add: cache_bet_event_def Let_def)

lemma cache_bet_event_rows:
  "bet_events (snd (cache_bet_event f evm gid amt side blk ts st)) = bet_events st \<or>
   (\<exists>new. bet_key new \<notin> set (map bet_key (bet_events st)) \<and>
      bet_events (snd (cache_bet_event f evm gid amt side blk ts st)) = bet_events st @ [new])"
proof (cases f)
  case NoFault
  show ?thesis
  proof (cases "(evm, gid, blk, side) \<in> set (map bet_key (bet_events st))")
    case True
    then show ?thesis by (simp add: cache_bet_event_present(1))
  next
    case False
    have "bet_key \<lparr>be_id = next_rowid (bet_events_seq st) (map be_id (bet_events st)),
        be_evm_address = evm, be_game_id = gid, be_amount = amt, be_side = side,
        be_block_number = blk, be_timestamp = ts\<rparr> = (evm, gid, blk, side)"
      by (simp add: bet_key_def)
    with False NoFault cache_bet_event_absent [OF False, of amt ts] show ?thesis
      by (metis (no_types, lifting))
  qed
next
  case (Fault g m)
  then show ?thesis by (cases g) (simp_all add: cache_bet_event_def)
qed

lemma exec_bet_events:
  "bet_events (exec c st) = bet_events st \<or>
   (\<exists>P. bet_events (exec c st) = filter P (bet_events st)) \<or>
   (\<exists>new. bet_key new \<notin> set (map bet_key (bet_events st)) \<and> bet_events (exec c st) = bet_events st @ [new])"
proof (cases c)
  case (InitDb f)
  then show ?thesis by (cases f) (simp_all add: init_db_def)
next
  case (SaveSnapshot f now blk scs vols)
  then show ?thesis by (cases f) (simp_all add: save_snapshot_def Let_def)
next
  case (UpdateMinerData f now uid hk ck evm dv wv sc)
  then show ?thesis by (cases f) (simp_all add: update_miner_data_def)
next
  case (CacheBetEvent f evm gid amt side blk ts)
  with cache_bet_event_rows [of f evm gid amt side blk ts st] show ?thesis by auto
next
  case (CleanupOldEvents f now days)
  then show ?thesis by (cases f) (auto simp: cleanup_old_events_def Let_def)
next
  case (SaveWalletMapping f now ck evm sg msg ts)
  then show ?thesis
    by (cases f; (cases "case f of Fault g m \<Rightarrow> g")?) (simp_all add: save_wallet_mapping_def Let_def)
next
  case (DeleteWalletMapping f ck)
  then show ?thesis by (cases f) (simp_all add: delete_wallet_mapping_def)
qed

lemma exec_distinct_bet_keys:
  assumes "distinct (map bet_key (bet_events st))"
  shows "distinct (map bet_key (bet_events (exec c st)))"
proof -
  from exec_bet_events [of c st] consider
    (same) "bet_events (exec c st) = bet_events st"
  | (fewer) P where "bet_events (exec c st) = filter P (bet_events st)"
  | (more) new where "bet_key new \<notin> set (map bet_key (bet_events st))"
      "bet_events (exec c st) = bet_events st @ [new]"
    by blast
  then show ?thesis
  proof cases
    case same
    with assms show ?thesis by simp
  next
    case fewer
    with assms show ?thesis by (simp add: distinct_map_filter)
  next
    case more
    with assms show ?thesis by simp
  qed
qed

lemma run_distinct_bet_keys:
  "distinct (map bet_key (bet_events st)) \<Longrightarrow> distinct (map bet_key (bet_events (run cs st)))"
  unfolding run_def by (induction cs arbitrary: st) (simp_all add: exec_distinct_bet_keys)

text \<open>
  C2. Whatever sequence of calls the store has seen since it was created, no
  two cached events agree on (evm_address, game_id, block_number, side).
  Caching a tuple whose key is in the table adds no row, and where the driver
  raises nothing the call returns normally, writes nothing to the log and
  leaves every table as it was; only the rowid counter of the table moves.
  Caching a tuple that differs from a cached one in its side only, and whose
  own key is not in the table, appends one row.
\<close>

theorem bet_events_unique_key:
  "distinct (map bet_key (bet_events (run cs empty_state))) \<and>
   ((evm, gid, blk, side) \<in> set (map bet_key (bet_events st)) \<longrightarrow>
      bet_events (snd (cache_bet_event f evm gid amt side blk ts st)) = bet_events st \<and>
      cache_bet_event NoFault evm gid amt side blk ts st =
        (Inr (), st\<lparr>bet_events_seq := next_rowid (bet_events_seq st) (map be_id (bet_events st))\<rparr>) \<and>
      (side' \<noteq> side \<and> (evm, gid, blk, side') \<notin> set (map bet_key (bet_events st)) \<longrightarrow>
         (\<exists>rid. bet_events (snd (cache_bet_event NoFault evm gid amt' side' blk ts' st)) =
            bet_events st @ [\<lparr>be_id = rid, be_evm_address = evm, be_game_id = gid, be_amount = amt',
               be_side = side', be_block_number = blk, be_timestamp = ts'\<rparr>])))"
proof (intro conjI impI)
  show "distinct (map bet_key (bet_events (run cs empty_state)))"
    by (rule run_distinct_bet_keys) (simp add: empty_state_def)
next
  assume "(evm, gid, blk, side) \<in> set (map bet_key (bet_events st))"
  then show "bet_events (snd (cache_bet_event f evm gid amt side blk ts st)) = bet_events st"
    and "cache_bet_event NoFault evm gid amt side blk ts st =
        (Inr (), st\<lparr>bet_events_seq := next_rowid (bet_events_seq st) (map be_id (bet_events st))\<rparr>)"
    by (rule cache_bet_event_present)+
next
  assume "side' \<noteq> side \<and> (evm, gid, blk, side') \<notin> set (map bet_key (bet_events st))"
  then have "(evm, gid, blk, side') \<notin> set (map bet_key (bet_events st))" ..
  from cache_bet_event_absent [OF this]
  show "\<exists>rid. bet_events (snd (cache_bet_event NoFault evm gid amt' side' blk ts' st)) =
            bet_events st @ [\<lparr>be_id = rid, be_evm_address = evm, be_game_id = gid, be_amount = amt',
               be_side = side', be_block_number = blk, be_timestamp = ts'\<rparr>]"
    by blast
qed

theorem bet_events_unique_key_witness:
  "length (bet_events (snd (cache_bet_event NoFault ''0xa'' 1 9 0 10 2000
      (snd (cache_bet_event NoFault ''0xa'' 1 (5 :: int) 0 10 1000 empty_state))))) = 1 \<and>
   length (bet_events (snd (cache_bet_event NoFault ''0xa'' 1 5 1 10 1000
      (snd (cache_bet_event NoFault ''0xa'' 1 (5 :: int) 0 10 1000 empty_state))))) = 2"
proof -
  define st0 where "st0 = snd (cache_bet_event NoFault ''0xa'' 1 (5 :: int) 0 10 1000 empty_state)"
  have rows: "bet_events st0 = [\<lparr>be_id = 1, be_evm_address = ''0xa'', be_game_id = 1, be_amount = 5,
      be_side = 0, be_block_number = 10, be_timestamp = 1000\<rparr>]"
    by (simp add: st0_def cache_bet_event_def empty_state_def next_rowid_def)
  have present: "(''0xa'', 1, 10, 0) \<in> set (map bet_key (bet_events st0))"
    and absent: "(1 :: int) \<noteq> 0 \<and> (''0xa'', 1, 10, 1) \<notin> set (map bet_key (bet_events st0))"
    by (simp_all add: rows bet_key_def)
  from bet_events_unique_key [of "[] :: int call list" "''0xa''" 1 10 0 st0 NoFault 9 2000 1 5 1000] present absent
  have "bet_events (snd (cache_bet_event NoFault ''0xa'' 1 9 0 10 2000 st0)) = bet_events st0"
    and "\<exists>rid. bet_events (snd (cache_bet_event NoFault ''0xa'' 1 5 1 10 1000 st0)) =
      bet_events st0 @ [\<lparr>be_id = rid, be_evm_address = ''0xa'', be_game_id = 1, be_amount = 5,
         be_side = 1, be_block_number = 10, be_timestamp = 1000\<rparr>]"
    by blast+
  then show ?thesis
    unfolding st0_def [symmetric] by (auto simp: rows)
qed

subsection \<open>Bet events: the first writer wins\<close>

text \<open>
  C10. When a tuple is cached for the first time and the same key is cached
  again with another amount and another timestamp (whether or not the driver
  raises during the second call), the table holds one row for the key, with
  the amount and the timestamp of the first call.
\<close>

theorem cache_bet_event_first_writer_wins:
  assumes "(evm, gid, blk, side) \<notin> set (map bet_key (bet_events st))"
  shows "map (\<lambda>r. (be_amount r, be_timestamp r))
       (filter (\<lambda>r. bet_key r = (evm, gid, blk, side))
          (bet_events (snd (cache_bet_event f evm gid amt2 side blk ts2
             (snd (cache_bet_event NoFault evm gid amt1 side blk ts1 st))))))
     = [(amt1, ts1)]"
proof -
  let ?st1 = "snd (cache_bet_event NoFault evm gid amt1 side blk ts1 st)"
  let ?new = "\<lparr>be_id = next_rowid (bet_events_seq st) (map be_id (bet_events st)),
        be_evm_address = evm, be_game_id = gid, be_amount = amt1, be_side = side,
        be_block_number = blk, be_timestamp = ts1\<rparr>"
  have rows1: "bet_events ?st1 = bet_events st @ [?new]"
    by (rule cache_bet_event_absent [OF assms])
  have key: "bet_key ?new = (evm, gid, blk, side)" by (simp add: bet_key_def)
  then have "(evm, gid, blk, side) \<in> set (map bet_key (bet_events ?st1))"
    by (simp add: rows1)
  then have rows2: "bet_events (snd (cache_bet_event f evm gid amt2 side blk ts2 ?st1)) = bet_events ?st1"
    by (rule cache_bet_event_present(1))
  have "filter (\<lambda>r. bet_key r = (evm, gid, blk, side)) (bet_events st) = []"
    using assms by (force simp: filter_empty_conv)
  then show ?thesis
    by (simp add: rows2 rows1 key)
qed

theorem cache_bet_event_first_writer_wins_witness:
  "map (\<lambda>r. (be_amount r, be_timestamp r))
     (filter (\<lambda>r. bet_key r = (''0xa'', 1, 10, 0))
        (bet_events (snd (cache_bet_event NoFault ''0xa'' 1 9 0 10 2000
           (snd (cache_bet_event NoFault ''0xa'' 1 (5 :: int) 0 10 1000 empty_state))))))
   = [(5, 1000)]"
proof -
  have "(''0xa'', 1, 10, 0) \<notin> set (map bet_key (bet_events (empty_state :: int state)))"
    by (simp add: empty_state_def)
  from cache_bet_event_first_writer_wins [OF this] show ?thesis .
qed

subsection \<open>Bet events: the retention sweep\<close>

lemma cleanup_old_events_no_fault:
  "cleanup_old_events NoFault now days st =
     (Inr PyNone,
      st\<lparr>bet_events := filter (\<lambda>r. \<not> be_timestamp r < now - days * 86400) (bet_events st),
         logged := logged st @
           (if 0 < length (filter (\<lambda>r. be_timestamp r < now - days * 86400) (bet_events st))
            then [Info (''Cleaned up '' @
                   str_int (int (length (filter (\<lambda>r. be_timestamp r < now - days * 86400) (bet_events st))))
                   @ '' old bet events'')]
            else [])\<rparr>)"
  by (simp add: cleanup_old_events_def Let_def)

lemma filter_old_of_kept:
  "filter (\<lambda>r. be_timestamp r < c) (filter (\<lambda>r. \<not> be_timestamp r < c) rows) = []"
  by (induction rows) auto

lemma filter_old_twice:
  "filter (\<lambda>r. be_timestamp r < c2) (filter (\<lambda>r. \<not> be_timestamp r < c1) rows) =
   filter (\<lambda>r. \<not> be_timestamp r < c1 \<and> be_timestamp r < c2) rows"
  by (induction rows) auto

lemma cleanup_old_events_zone_shift:
  "map be_timestamp (bet_events (snd (cleanup_old_events NoFault
      (utcnow_timestamp \<lparr>unix_time = 2000000, utc_offset = - 18000\<rparr>) 14
      ((empty_state :: int state)\<lparr>bet_events :=
         [\<lparr>be_id = 1, be_evm_address = ''0xa'', be_game_id = 1, be_amount = 5, be_side = 0,
            be_block_number = 10, be_timestamp = 800000\<rparr>]\<rparr>)))) = [] \<and>
   \<not> (800000 :: int) < 2000000 - 14 * 86400"
  by (simp add: cleanup_old_events_no_fault utcnow_timestamp_def)

text \<open>
  C5, as stated, fails: each call reads the clock, so the second of two sweeps
  in succession has its own cutoff. An event exactly at the first cutoff
  survives the first sweep and is removed by a sweep one second later.
\<close>

theorem cleanup_old_events_idempotent_counterexample:
  "length (bet_events (snd (cleanup_old_events NoFault
      (utcnow_timestamp \<lparr>unix_time = 2000000, utc_offset = 0\<rparr>) 14
      ((empty_state :: int state)\<lparr>bet_events :=
         [\<lparr>be_id = 1, be_evm_address = ''0xa'', be_game_id = 1, be_amount = 5, be_side = 0,
            be_block_number = 10, be_timestamp = 790400\<rparr>]\<rparr>)))) = 1 \<and>
   length (bet_events (snd (cleanup_old_events NoFault
      (utcnow_timestamp \<lparr>unix_time = 2000001, utc_offset = 0\<rparr>) 14
      (snd (cleanup_old_events NoFault
         (utcnow_timestamp \<lparr>unix_time = 2000000, utc_offset = 0\<rparr>) 14
         ((empty_state :: int state)\<lparr>bet_events :=
            [\<lparr>be_id = 1, be_evm_address = ''0xa'', be_game_id = 1, be_amount = 5, be_side = 0,
               be_block_number = 10, be_timestamp = 790400\<rparr>]\<rparr>)))))) = 0"
  by (simp add: cleanup_old_events_no_fault utcnow_timestamp_def)

text \<open>
  C5, amended. On a host whose local zone is UTC the clock reading of a call
  is Unix time. There a sweep during which the driver raises nothing returns,
  keeps exactly the events whose timestamp is not below the reading less
  \<open>days * 86400\<close> (for any number of days, 14 among them), unchanged and in
  their order, and so deletes exactly those strictly below it. A second sweep
  in succession does the same at its own reading: it removes exactly the
  events that lie at or above the first cutoff and below the second, and when
  the two readings are equal it leaves the state, the log included, as the
  first sweep left it. (On a host in another zone the reading is shifted by
  the zone's offset, lemma \<open>cleanup_old_events_zone_shift\<close>; the statement says
  nothing about that case.)
\<close>

theorem cleanup_old_events_exact_per_clock_reading:
  assumes "utc_offset c1 = 0" and "utc_offset c2 = 0"
  shows "fst (cleanup_old_events NoFault (utcnow_timestamp c1) days st) = Inr PyNone \<and>
     bet_events (snd (cleanup_old_events NoFault (utcnow_timestamp c1) days st)) =
       filter (\<lambda>r. \<not> be_timestamp r < unix_time c1 - days * 86400) (bet_events st) \<and>
     set (bet_events st) - set (bet_events (snd (cleanup_old_events NoFault (utcnow_timestamp c1) days st))) =
       {r \<in> set (bet_events st). be_timestamp r < unix_time c1 - days * 86400} \<and>
     bet_events (snd (cleanup_old_events NoFault (utcnow_timestamp c2) days
         (snd (cleanup_old_events NoFault (utcnow_timestamp c1) days st)))) =
       filter (\<lambda>r. \<not> be_timestamp r < unix_time c2 - days * 86400)
         (bet_events (snd (cleanup_old_events NoFault (utcnow_timestamp c1) days st))) \<and>
     length (bet_events (snd (cleanup_old_events NoFault (utcnow_timestamp c1) days st))) =
       length (bet_events (snd (cleanup_old_events NoFault (utcnow_timestamp c2) days
         (snd (cleanup_old_events NoFault (utcnow_timestamp c1) days st)))))
       + length (filter (\<lambda>r. \<not> be_timestamp r < unix_time c1 - days * 86400 \<and>
                             be_timestamp r < unix_time c2 - days * 86400) (bet_events st)) \<and>
     (unix_time c2 = unix_time c1 \<longrightarrow>
        snd (cleanup_old_events NoFault (utcnow_timestamp c2) days
          (snd (cleanup_old_events NoFault (utcnow_timestamp c1) days st))) =
        snd (cleanup_old_events NoFault (utcnow_timestamp c1) days st))"
proof -
  let ?k1 = "unix_time c1 - days * 86400" and ?k2 = "unix_time c2 - days * 86400"
  let ?st1 = "snd (cleanup_old_events NoFault (utcnow_timestamp c1) days st)"
  let ?st2 = "snd (cleanup_old_events NoFault (utcnow_timestamp c2) days ?st1)"
  have t1: "utcnow_timestamp c1 = unix_time c1" and t2: "utcnow_timestamp c2 = unix_time c2"
    using assms by (simp_all add: utcnow_timestamp_def)
  have ret: "fst (cleanup_old_events NoFault (utcnow_timestamp c1) days st) = Inr PyNone"
    by (simp add: cleanup_old_events_no_fault)
  have rows1: "bet_events ?st1 = filter (\<lambda>r. \<not> be_timestamp r < ?k1) (bet_events st)"
    by (simp add: cleanup_old_events_no_fault t1)
  have gone: "set (bet_events st) - set (bet_events ?st1) = {r \<in> set (bet_events st). be_timestamp r < ?k1}"
    unfolding rows1 by auto
  have rows2: "bet_events ?st2 = filter (\<lambda>r. \<not> be_timestamp r < ?k2) (bet_events ?st1)"
    unfolding t2 by (simp add: cleanup_old_events_no_fault)
  have "length (bet_events ?st1) =
      length (filter (\<lambda>r. \<not> be_timestamp r < ?k2) (bet_events ?st1))
      + length (filter (\<lambda>r. be_timestamp r < ?k2) (bet_events ?st1))"
    using sum_length_filter_compl [of "\<lambda>r. be_timestamp r < ?k2" "bet_events ?st1"] by simp
  then have count: "length (bet_events ?st1) = length (bet_events ?st2)
      + length (filter (\<lambda>r. \<not> be_timestamp r < ?k1 \<and> be_timestamp r < ?k2) (bet_events st))"
    by (simp only: rows2) (simp only: rows1 filter_old_twice)
  have same: "unix_time c2 = unix_time c1 \<longrightarrow> ?st2 = ?st1"
    by (simp add: cleanup_old_events_no_fault t1 t2 filter_old_of_kept)
  from ret rows1 gone rows2 count same show ?thesis by (intro conjI)
qed

theorem cleanup_old_events_exact_per_clock_reading_witness:
  "map be_timestamp (bet_events (snd (cleanup_old_events NoFault
      (utcnow_timestamp \<lparr>unix_time = 2000000, utc_offset = 0\<rparr>) 14
      ((empty_state :: int state)\<lparr>bet_events :=
         [\<lparr>be_id = 1, be_evm_address = ''0xa'', be_game_id = 1, be_amount = 5, be_side = 0,
            be_block_number = 10, be_timestamp = 790399\<rparr>,
          \<lparr>be_id = 2, be_evm_address = ''0xa'', be_game_id = 2, be_amount = 5, be_side = 0,
            be_block_number = 11, be_timestamp = 790400\<rparr>,
          \<lparr>be_id = 3, be_evm_address = ''0xb'', be_game_id = 2, be_amount = 7, be_side = 1,
            be_block_number = 12, be_timestamp = 900000\<rparr>]\<rparr>)))) = [790400, 900000]"
proof -
  have z: "utc_offset \<lparr>unix_time = 2000000, utc_offset = 0\<rparr> = 0" by simp
  show ?thesis
    using cleanup_old_events_exact_per_clock_reading [OF z z, of 14
      "(empty_state :: int state)\<lparr>bet_events :=
         [\<lparr>be_id = 1, be_evm_address = ''0xa'', be_game_id = 1, be_amount = 5, be_side = 0,
            be_block_number = 10, be_timestamp = 790399\<rparr>,
          \<lparr>be_id = 2, be_evm_address = ''0xa'', be_game_id = 2, be_amount = 5, be_side = 0,
            be_block_number = 11, be_timestamp = 790400\<rparr>,
          \<lparr>be_id = 3, be_evm_address = ''0xb'', be_game_id = 2, be_amount = 7, be_side = 1,
            be_block_number = 12, be_timestamp = 900000\<rparr>]\<rparr>"]
    by simp
qed

subsection \<open>Bet events: what the sweep tells its caller\<close>

text \<open>
  C9, as stated, fails: a sweep that removes one event returns \<open>None\<close>, not the
  count 1.
\<close>

theorem cleanup_old_events_returns_count_counterexample:
  "length (bet_events ((empty_state :: int state)\<lparr>bet_events :=
       [\<lparr>be_id = 1, be_evm_address = ''0xa'', be_game_id = 1, be_amount = 5, be_side = 0,
          be_block_number = 10, be_timestamp = 1000\<rparr>]\<rparr>)) = 1 \<and>
   length (bet_events (snd (cleanup_old_events NoFault 2000000 14
     ((empty_state :: int state)\<lparr>bet_events :=
       [\<lparr>be_id = 1, be_evm_address = ''0xa'', be_game_id = 1, be_amount = 5, be_side = 0,
          be_block_number = 10, be_timestamp = 1000\<rparr>]\<rparr>)))) = 0 \<and>
   fst (cleanup_old_events NoFault 2000000 14
     ((empty_state :: int state)\<lparr>bet_events :=
       [\<lparr>be_id = 1, be_evm_address = ''0xa'', be_game_id = 1, be_amount = 5, be_side = 0,
          be_block_number = 10, be_timestamp = 1000\<rparr>]\<rparr>)) = Inr PyNone \<and>
   fst (cleanup_old_events NoFault 2000000 14
     ((empty_state :: int state)\<lparr>bet_events :=
       [\<lparr>be_id = 1, be_evm_address = ''0xa'', be_game_id = 1, be_amount = 5, be_side = 0,
          be_block_number = 10, be_timestamp = 1000\<rparr>]\<rparr>)) \<noteq> Inr (PyInt 1)"
  by (simp add: cleanup_old_events_no_fault)

text \<open>
  C9, amended. A sweep never returns a count: it returns \<open>None\<close> or raises.
  The number of events removed goes to the log, as one info line, when it is
  positive; a sweep that removes nothing adds nothing to the log.
\<close>

theorem cleanup_old_events_reports_through_log:
  "fst (cleanup_old_events f now days st) \<noteq> Inr (PyInt n) \<and>
   fst (cleanup_old_events NoFault now days st) = Inr PyNone \<and>
   length (bet_events st) =
     length (bet_events (snd (cleanup_old_events NoFault now days st)))
       + length (filter (\<lambda>r. be_timestamp r < now - days * 86400) (bet_events st)) \<and>
   logged (snd (cleanup_old_events NoFault now days st)) = logged st @
     (if 0 < length (filter (\<lambda>r. be_timestamp r < now - days * 86400) (bet_events st))
      then [Info (''Cleaned up '' @
              str_int (int (length (filter (\<lambda>r. be_timestamp r < now - days * 86400) (bet_events st))))
              @ '' old bet events'')]
      else [])"
proof (intro conjI)
  show "fst (cleanup_old_events f now days st) \<noteq> Inr (PyInt n)"
    by (cases f) (simp_all add: cleanup_old_events_def Let_def)
  show "fst (cleanup_old_events NoFault now days st) = Inr PyNone"
    by (simp add: cleanup_old_events_no_fault)
  show "length (bet_events st) =
     length (bet_events (snd (cleanup_old_events NoFault now days st)))
       + length (filter (\<lambda>r. be_timestamp r < now - days * 86400) (bet_events st))"
    using sum_length_filter_compl [of "\<lambda>r. be_timestamp r < now - days * 86400" "bet_events st"]
    by (simp add: cleanup_old_events_no_fault)
  show "logged (snd (cleanup_old_events NoFault now days st)) = logged st @
     (if 0 < length (filter (\<lambda>r. be_timestamp r < now - days * 86400) (bet_events st))
      then [Info (''Cleaned up '' @
              str_int (int (length (filter (\<lambda>r. be_timestamp r < now - days * 86400) (bet_events st))))
              @ '' old bet events'')]
      else [])"
    by (simp add: cleanup_old_events_no_fault)
qed

theorem cleanup_old_events_reports_through_log_witness:
  "logged (snd (cleanup_old_events NoFault 2000000 14
     ((empty_state :: int state)\<lparr>bet_events :=
       [\<lparr>be_id = 1, be_evm_address = ''0xa'', be_game_id = 1, be_amount = 5, be_side = 0,
          be_block_number = 10, be_timestamp = 1000\<rparr>]\<rparr>))) = [Info ''Cleaned up 1 old bet events''] \<and>
   logged (snd (cleanup_old_events NoFault 2000000 14 (empty_state :: int state))) = []"
  using cleanup_old_events_reports_through_log [of NoFault 2000000 14
     "(empty_state :: int state)\<lparr>bet_events :=
       [\<lparr>be_id = 1, be_evm_address = ''0xa'', be_game_id = 1, be_amount = 5, be_side = 0,
          be_block_number = 10, be_timestamp = 1000\<rparr>]\<rparr>" 0]
    cleanup_old_events_reports_through_log [of NoFault 2000000 14 "empty_state :: int state" 0]
  by (simp add: empty_state_def str_int_def str_nat.simps digit_char_def)

subsection \<open>Wallet mappings: the address is stored in lower case\<close>

lemma lower_char_not_upper: "lower_char c \<notin> set upper_letters"
  by (simp add: lower_char_def upper_letters_def lower_letters_def)

lemma save_wallet_mapping_saved:
  assumes "save_wallet_mapping f now ck evm sg msg ts st = (Inr True, st')"
  shows "filter (\<lambda>r. wm_coldkey r = ck) (wallet_mappings st') =
     [\<lparr>wm_id = next_rowid (wallet_mappings_seq st) (map wm_id (wallet_mappings st)),
       wm_coldkey = ck, wm_evm_address = lower evm, wm_signature = sg, wm_message = msg,
       wm_timestamp = ts, wm_verified_at = now\<rparr>]"
proof (cases f)
  case NoFault
  with assms show ?thesis by (auto simp: save_wallet_mapping_def Let_def)
next
  case (Fault g m)
  with assms show ?thesis by (cases g) (simp_all add: save_wallet_mapping_def)
qed

lemma lower_char_other: "c \<notin> set upper_letters \<Longrightarrow> lower_char c = c"
  by (simp add: lower_char_def upper_letters_def lower_letters_def)

text \<open>
  C4. A call of \<open>save_wallet_mapping\<close> during which the driver raises nothing
  returns \<open>True\<close>, from any store, and after it \<open>get_wallet_mapping\<close> and
  \<open>get_evm_address_for_coldkey\<close> for the coldkey give the address in lower
  case: the address passed in with every letter A to Z replaced by a to z and
  every other character as it was, whatever the case of the input. A call
  during which the driver raises leaves the mappings as they were.
\<close>

theorem wallet_mapping_address_lowercase:
  "fst (save_wallet_mapping NoFault now ck evm sg msg ts st) = Inr True \<and>
   get_wallet_mapping ck (snd (save_wallet_mapping NoFault now ck evm sg msg ts st)) =
     Some \<lparr>w_coldkey = ck, w_evm_address = lower evm,
        w_signature = sg, w_message = msg, w_timestamp = ts, w_verified_at = now\<rparr> \<and>
   get_evm_address_for_coldkey ck (snd (save_wallet_mapping NoFault now ck evm sg msg ts st)) =
     Some (lower evm) \<and>
   length (lower evm) = length evm \<and>
   (\<forall>c \<in> set (lower evm). c \<notin> set upper_letters) \<and>
   (\<forall>i < length evm. evm ! i \<notin> set upper_letters \<longrightarrow> lower evm ! i = evm ! i) \<and>
   wallet_mappings (snd (save_wallet_mapping (Fault g m) now ck evm sg msg ts st)) = wallet_mappings st"
proof -
  have ret: "fst (save_wallet_mapping NoFault now ck evm sg msg ts st) = Inr True"
    by (simp add: save_wallet_mapping_def Let_def)
  then have "save_wallet_mapping NoFault now ck evm sg msg ts st =
      (Inr True, snd (save_wallet_mapping NoFault now ck evm sg msg ts st))"
    by (metis prod.collapse)
  from save_wallet_mapping_saved [OF this]
  have get: "get_wallet_mapping ck (snd (save_wallet_mapping NoFault now ck evm sg msg ts st)) =
     Some \<lparr>w_coldkey = ck, w_evm_address = lower evm,
        w_signature = sg, w_message = msg, w_timestamp = ts, w_verified_at = now\<rparr>"
    by (simp add: get_wallet_mapping_def fetchone_def)
  then have addr: "get_evm_address_for_coldkey ck (snd (save_wallet_mapping NoFault now ck evm sg msg ts st)) =
     Some (lower evm)"
    by (simp add: get_evm_address_for_coldkey_def)
  have len: "length (lower evm) = length evm" by (simp add: lower_def)
  have low: "\<forall>c \<in> set (lower evm). c \<notin> set upper_letters"
    by (simp add: lower_def lower_char_not_upper)
  have oth: "\<forall>i < length evm. evm ! i \<notin> set upper_letters \<longrightarrow> lower evm ! i = evm ! i"
    by (simp add: lower_def lower_char_other)
  have flt: "wallet_mappings (snd (save_wallet_mapping (Fault g m) now ck evm sg msg ts st)) = wallet_mappings st"
    by (cases g) (simp_all add: save_wallet_mapping_def)
  from ret get addr len low oth flt show ?thesis by (intro conjI)
qed

theorem wallet_mapping_address_lowercase_witness:
  "get_evm_address_for_coldkey ''5Grw''
     (snd (save_wallet_mapping NoFault ''2025-01-01 00:00:00'' ''5Grw'' ''0xABCdef0123'' ''ab12'' ''link'' 1700000000000
        ((empty_state :: int state)\<lparr>wallet_mappings :=
           [\<lparr>wm_id = 1, wm_coldkey = ''5Grw'', wm_evm_address = ''0x999'', wm_signature = ''cd'',
              wm_message = ''old'', wm_timestamp = 1600000000000, wm_verified_at = ''2024-12-31 00:00:00''\<rparr>,
            \<lparr>wm_id = 2, wm_coldkey = ''5Fhn'', wm_evm_address = ''0x777'', wm_signature = ''ef'',
              wm_message = ''other'', wm_timestamp = 1600000000001, wm_verified_at = ''2024-12-31 00:00:01''\<rparr>],
           wallet_mappings_seq := 2\<rparr>)))
   = Some ''0xabcdef0123''"
  using wallet_mapping_address_lowercase [of "''2025-01-01 00:00:00''" "''5Grw''" "''0xABCdef0123''" "''ab12''" "''link''"
      1700000000000
      "(empty_state :: int state)\<lparr>wallet_mappings :=
           [\<lparr>wm_id = 1, wm_coldkey = ''5Grw'', wm_evm_address = ''0x999'', wm_signature = ''cd'',
              wm_message = ''old'', wm_timestamp = 1600000000000, wm_verified_at = ''2024-12-31 00:00:00''\<rparr>,
            \<lparr>wm_id = 2, wm_coldkey = ''5Fhn'', wm_evm_address = ''0x777'', wm_signature = ''ef'',
              wm_message = ''other'', wm_timestamp = 1600000000001, wm_verified_at = ''2024-12-31 00:00:01''\<rparr>],
           wallet_mappings_seq := 2\<rparr>" Connect "''io''"]
  by (simp add: lower_def lower_char_def upper_letters_def lower_letters_def)

subsection \<open>Wallet mappings: faults\<close>

lemma save_wallet_mapping_result:
  "fst (save_wallet_mapping NoFault now ck evm sg msg ts st) = Inr True"
  "g \<noteq> Connect \<Longrightarrow> save_wallet_mapping (Fault g m) now ck evm sg msg ts st =
     (Inr False, st\<lparr>logged := logged st @ [Error (''Failed to save wallet mapping: '' @ m)]\<rparr>)"
  by (cases g; simp add: save_wallet_mapping_def Let_def)+

lemma other_writers_propagate:
  "save_snapshot (Fault g m) now blk scs vols st = (Inl (StorageError g m), st)"
  "update_miner_data (Fault g m) now uid hk ck evm dv wv sc st = (Inl (StorageError g m), st)"
  "cleanup_old_events (Fault g m) unow days st = (Inl (StorageError g m), st)"
  by (simp_all add: save_snapshot_def update_miner_data_def cleanup_old_events_def)

text \<open>
  C8. The claim is that every call returns a boolean. The \<open>try\<close> of
  \<open>save_wallet_mapping\<close> starts after the connection is opened: when opening
  it fails, the call raises and returns no boolean. (Faults of the statement
  and of the commit are caught and give \<open>False\<close>, lemma
  \<open>save_wallet_mapping_result\<close>.)
\<close>

theorem save_wallet_mapping_connect_fault_propagates:
  "save_wallet_mapping (Fault Connect ''unable to open database file'') ''2025-01-01 00:00:00''
     ''5Grw'' ''0xABCdef0123'' ''ab12'' ''link'' 1700000000000 (empty_state :: int state)
   = (Inl (StorageError Connect ''unable to open database file''), empty_state)"
  by (simp add: save_wallet_mapping_def)

end
